theory Spec2Isabelle
  imports Complex_Main "HOL-Library.AList"
begin

section \<open>The trigger coordinator of the camera card (card-controller/triggers-manager.ts)\<close>

text \<open>
  A shallow embedding of the class \<^verbatim>\<open>TriggersManager\<close>. The object's fields and the
  collaborators it writes to are one record (\<open>manager\<close>), passed through every method and
  returned updated; the collaborators it only reads from are a second record (\<open>api\<close>),
  read afresh by every method call, as the source does. A method of the source named
  \<^verbatim>\<open>_foo\<close> is \<open>foo\<close> here (an identifier cannot start with an underscore), and a
  parameter named \<^verbatim>\<open>cameraID\<close> is \<open>camID\<close> (the name is the event's field).

  Every public operation is one atomic step: the source is run by a single-threaded
  event loop, and the model follows each \<^verbatim>\<open>async\<close> method to its end without
  letting another event in at an \<^verbatim>\<open>await\<close>.
\<close>

subsection \<open>Camera events (camera-manager/types.ts)\<close>

datatype event_type = New | Update | End

datatype fidelity_level = High | Low

text \<open>
  The interface \<^verbatim>\<open>CameraEvent\<close>. The fields \<^verbatim>\<open>id\<close> and \<^verbatim>\<open>type\<close> are \<open>id'\<close> and \<open>type'\<close>;
  an optional field is an \<open>option\<close>.
\<close>

record CameraEvent =
  cameraID :: string
  id' :: string
  type' :: event_type
  fidelity :: "fidelity_level option"
  clip :: "bool option"
  snapshot :: "bool option"

text \<open>JavaScript truthiness of an optional boolean: \<^verbatim>\<open>undefined\<close> and \<^verbatim>\<open>false\<close> are falsy.\<close>

definition truthy :: "bool option \<Rightarrow> bool" where
  "truthy b = (b = Some True)"

subsection \<open>Configuration\<close>

text \<open>
  Modelled from the spec: the declarations of the trigger options (config/schema/view.ts)
  are not among the sources. The spec's section 6 gives the values:
  \<^verbatim>\<open>trigger: none|update|live|default|media\<close>, \<^verbatim>\<open>untrigger: none|default\<close>,
  \<^verbatim>\<open>interaction_mode: all|active|inactive\<close>, \<^verbatim>\<open>untrigger_seconds\<close> a number and
  \<^verbatim>\<open>filter_selected_camera\<close> a boolean. The number of seconds is a rational here, so
  that the source's test \<^verbatim>\<open>untriggerSeconds > 0\<close> is decided for every value a
  configuration can hold. The default view is the string the source compares with
  \<^verbatim>\<open>'live'\<close>.
\<close>

datatype trigger_action = TriggerNone | TriggerUpdate | TriggerLive | TriggerDefault | TriggerMedia

datatype untrigger_action = UntriggerNone | UntriggerDefault

datatype interaction_mode_value = All | Active | Inactive

record TriggersActions =
  trigger :: trigger_action
  untrigger :: untrigger_action
  interaction_mode :: interaction_mode_value

record TriggersOptions =
  untrigger_seconds :: rat
  filter_selected_camera :: bool
  actions :: TriggersActions

record ViewConfig =
  triggers :: TriggersOptions
  view_default :: string

text \<open>
  \<^verbatim>\<open>getConfig()\<close> returns a configuration or \<^verbatim>\<open>null\<close>. The source reaches the trigger
  options as \<^verbatim>\<open>getConfig()?.view.triggers\<close>: they are absent exactly when the
  configuration is.
\<close>

record Config =
  view :: ViewConfig

subsection \<open>Calls made to the collaborators\<close>

text \<open>
  The three awaited calls of the view manager, with the arguments the source passes:
  \<^verbatim>\<open>setViewByParametersWithNewQuery({queryExecutorOptions: {useCache: false}})\<close>,
  \<^verbatim>\<open>setViewByParametersWithNewQuery({params: {view, camera}})\<close> and
  \<^verbatim>\<open>setViewDefaultWithNewQuery({params: {camera}})\<close> (or with no argument).
\<close>

datatype navigation =
    SetViewByParametersWithNewQuery_noCache
  | SetViewByParametersWithNewQuery string string
  | SetViewDefaultWithNewQuery "string option"

datatype call =
    ViewManager navigation
  | ThrottledTriggerAction CameraEvent
  | ConditionState_setState "string set option"
  | CardElement_update

text \<open>The source throws nothing itself; a rejected navigation is the one failure.\<close>

datatype error = NavigationRejected navigation

subsection \<open>The timer (utils/timer.ts)\<close>

text \<open>
  Modelled from the spec: the class \<^verbatim>\<open>Timer\<close> is not among the sources. Section 4.1 of
  the spec: \<^verbatim>\<open>start(durationSeconds, callback)\<close> schedules the callback to run once after
  the duration unless stopped first; \<^verbatim>\<open>stop()\<close> cancels a pending invocation and is a
  no-op otherwise; there is one pending invocation per timer, and starting again
  reschedules. A timer object is a handle (a number, fresh at each \<^verbatim>\<open>new Timer()\<close>); the
  pending invocations are a table from handles to the time they are due and the camera
  the callback \<^verbatim>\<open>() => this._untriggerAction(cameraID)\<close> was closed over. Time is in
  seconds.
\<close>

type_synonym Timer = nat

type_synonym pending_timers = "(Timer \<times> rat \<times> string) list"

definition Timer_start :: "Timer \<Rightarrow> rat \<Rightarrow> rat \<Rightarrow> string \<Rightarrow> pending_timers \<Rightarrow> pending_timers" where
  "Timer_start t clock seconds camID pending = AList.update t (clock + seconds, camID) pending"

definition Timer_stop :: "Timer \<Rightarrow> pending_timers \<Rightarrow> pending_timers" where
  "Timer_stop t pending = AList.delete t pending"

subsection \<open>The state of the manager\<close>

record CameraTriggerState =
  lastTriggerTime :: rat
  sources :: "string set"
  untriggerDelayTimer :: "Timer option"

text \<open>
  \<open>states\<close> is the field \<^verbatim>\<open>_states\<close>, a JavaScript \<^verbatim>\<open>Map\<close>: an association list in
  insertion order, where \<open>AList.update\<close> is \<^verbatim>\<open>Map.set\<close> (in place for a key that is
  there, at the end for a new one) and \<open>AList.delete\<close> is \<^verbatim>\<open>Map.delete\<close>.
  \<open>timers\<close> and \<open>timerCount\<close> are the timer table. \<open>pendingTriggerAction\<close> is the
  event the throttle wrapper keeps for a later invocation, and \<open>calls\<close> is the list of
  calls made to the collaborators so far, oldest first.
\<close>

record manager =
  states :: "(string \<times> CameraTriggerState) list"
  timers :: pending_timers
  timerCount :: nat
  pendingTriggerAction :: "CameraEvent option"
  calls :: "call list"

definition new_TriggersManager :: manager where
  "new_TriggersManager =
     \<lparr>states = [], timers = [], timerCount = 0, pendingTriggerAction = None, calls = []\<rparr>"

text \<open>
  What a method reads from its collaborators: the configuration, the camera of the
  current view (\<^verbatim>\<open>getView()?.camera\<close>), \<^verbatim>\<open>getAllDependentCameras\<close>, \<^verbatim>\<open>hasInteraction()\<close>,
  the state string of an entity (\<^verbatim>\<open>hass?.states[entityID]?.state\<close>), the cameras of the
  store with their trigger entities in enumeration order, and the clock
  (\<^verbatim>\<open>new Date()\<close>). Three parts that are not in the sources are inputs as well:
  \<^verbatim>\<open>isTriggeredState\<close> (ha/is-triggered-state.ts); which navigations are rejected by the
  view manager; and whether the wrapper made by \<^verbatim>\<open>throttle\<close> (lodash-es) runs the
  wrapped method at this call or keeps the event for later.
\<close>

record api =
  config :: "Config option"
  view_camera :: "string option"
  getAllDependentCameras :: "string \<Rightarrow> string set"
  hasInteraction :: bool
  hass_state :: "string \<Rightarrow> string option"
  cameras :: "(string \<times> string list) list"
  now :: rat
  isTriggeredState :: "string option \<Rightarrow> bool"
  navigationRejected :: "navigation \<Rightarrow> bool"
  throttleInvokes :: bool

type_synonym 'a result = "(error + 'a) \<times> manager"

subsection \<open>Queries\<close>

definition isStateTriggered :: "CameraTriggerState \<Rightarrow> bool" where
  "isStateTriggered state = (sources state \<noteq> {} \<or> untriggerDelayTimer state \<noteq> None)"

definition getTriggeredCameraIDs :: "manager \<Rightarrow> string set" where
  "getTriggeredCameraIDs m =
     set (map fst (filter (\<lambda>(camID, state). isStateTriggered state) (states m)))"


subsection \<open>The methods\<close>

definition deleteUntriggerDelayTimer :: "string \<Rightarrow> manager \<Rightarrow> manager" where
  "deleteUntriggerDelayTimer camID m =
     (case map_of (states m) camID of
        None \<Rightarrow> m
      | Some state \<Rightarrow>
          (case untriggerDelayTimer state of
             None \<Rightarrow> m
           | Some t \<Rightarrow>
               m\<lparr>timers := Timer_stop t (timers m),
                 states := AList.update camID (state\<lparr>untriggerDelayTimer := None\<rparr>) (states m)\<rparr>))"

definition setConditionStateIfNecessary :: "manager \<Rightarrow> manager" where
  "setConditionStateIfNecessary m =
     m\<lparr>calls := calls m @
        [ConditionState_setState
           (if getTriggeredCameraIDs m \<noteq> {} then Some (getTriggeredCameraIDs m) else None)]\<rparr>"

definition hasAllowableInteractionStateForAction :: "api \<Rightarrow> bool" where
  "hasAllowableInteractionStateForAction a =
     (case config a of
        None \<Rightarrow> False
      | Some cfg \<Rightarrow>
          interaction_mode (actions (triggers (view cfg))) = All \<or>
          (interaction_mode (actions (triggers (view cfg))) = Active \<and> hasInteraction a) \<or>
          (interaction_mode (actions (triggers (view cfg))) = Inactive \<and> \<not> hasInteraction a))"

text \<open>An awaited call of the view manager: the call is made, and it is rejected or not.\<close>

definition navigate :: "api \<Rightarrow> navigation \<Rightarrow> manager \<Rightarrow> unit result" where
  "navigate a n m =
     (if navigationRejected a n then Inl (NavigationRejected n) else Inr (),
      m\<lparr>calls := calls m @ [ViewManager n]\<rparr>)"

definition triggerAction :: "api \<Rightarrow> CameraEvent \<Rightarrow> manager \<Rightarrow> unit result" where
  "triggerAction a ev m =
     (let action = map_option (\<lambda>cfg. trigger (actions (triggers (view cfg)))) (config a);
          defaultView = map_option (\<lambda>cfg. view_default (view cfg)) (config a)
      in
        if fidelity ev = Some High \<and> \<not> truthy (snapshot ev) \<and> \<not> truthy (clip ev) \<and>
           \<not> (action = Some TriggerLive \<or>
              (action = Some TriggerDefault \<and> defaultView = Some ''live''))
        then (Inr (), m)
        else
          (case
             (if hasAllowableInteractionStateForAction a then
                (if action = Some TriggerUpdate then
                   navigate a SetViewByParametersWithNewQuery_noCache m
                 else if action = Some TriggerLive then
                   navigate a (SetViewByParametersWithNewQuery ''live'' (cameraID ev)) m
                 else if action = Some TriggerDefault then
                   navigate a (SetViewDefaultWithNewQuery (Some (cameraID ev))) m
                 else if fidelity ev = Some High \<and> action = Some TriggerMedia then
                   navigate a
                     (SetViewByParametersWithNewQuery
                        (if truthy (clip ev) then ''clip'' else ''snapshot'') (cameraID ev)) m
                 else (Inr (), m))
              else (Inr (), m))
           of
             (Inl e, m') \<Rightarrow> (Inl e, m')
           | (Inr _, m') \<Rightarrow> (Inr (), m'\<lparr>calls := calls m' @ [CardElement_update]\<rparr>)))"

text \<open>
  The field \<^verbatim>\<open>_throttledTriggerAction = throttle(this._triggerAction.bind(this), 1000,
  {trailing: true})\<close>, one per manager. A call is recorded; the wrapper then runs
  \<^verbatim>\<open>_triggerAction\<close> with the event, or keeps the event (replacing one it kept before)
  for \<open>throttleTrailing\<close>.
\<close>

definition throttledTriggerAction :: "api \<Rightarrow> CameraEvent \<Rightarrow> manager \<Rightarrow> unit result" where
  "throttledTriggerAction a ev m =
     (if throttleInvokes a then
        triggerAction a ev (m\<lparr>calls := calls m @ [ThrottledTriggerAction ev]\<rparr>)
      else
        (Inr (), m\<lparr>calls := calls m @ [ThrottledTriggerAction ev],
                   pendingTriggerAction := Some ev\<rparr>))"

definition throttleTrailing :: "api \<Rightarrow> manager \<Rightarrow> unit result" where
  "throttleTrailing a m =
     (case pendingTriggerAction m of
        None \<Rightarrow> (Inr (), m)
      | Some ev \<Rightarrow> triggerAction a ev (m\<lparr>pendingTriggerAction := None\<rparr>))"

definition executeUntriggerAction :: "api \<Rightarrow> manager \<Rightarrow> bool result" where
  "executeUntriggerAction a m =
     (let action = map_option (\<lambda>cfg. untrigger (actions (triggers (view cfg)))) (config a)
      in
        if action = None \<or> action = Some UntriggerNone then (Inr True, m)
        else if hasAllowableInteractionStateForAction a then
          (case navigate a (SetViewDefaultWithNewQuery None) m of
             (Inl e, m') \<Rightarrow> (Inl e, m')
           | (Inr _, m') \<Rightarrow> (Inr True, m'))
        else (Inr True, m))"

definition untriggerAction :: "api \<Rightarrow> string \<Rightarrow> manager \<Rightarrow> unit result" where
  "untriggerAction a camID m =
     (case executeUntriggerAction a (deleteUntriggerDelayTimer camID m) of
        (Inl e, m') \<Rightarrow> (Inl e, m')
      | (Inr _, m') \<Rightarrow>
          (Inr (),
           (setConditionStateIfNecessary (m'\<lparr>states := AList.delete camID (states m')\<rparr>))
             \<lparr>calls := calls (setConditionStateIfNecessary
                         (m'\<lparr>states := AList.delete camID (states m')\<rparr>)) @
                       [CardElement_update]\<rparr>))"

definition startUntrigger :: "api \<Rightarrow> string \<Rightarrow> manager \<Rightarrow> unit result" where
  "startUntrigger a camID m =
     (let m1 = deleteUntriggerDelayTimer camID m
      in
        case map_of (states m1) camID of
          None \<Rightarrow> (Inr (), m1)
        | Some state \<Rightarrow>
            (let untriggerSeconds =
                   (case config a of None \<Rightarrow> 0 | Some cfg \<Rightarrow> untrigger_seconds (triggers (view cfg)))
             in
               if untriggerSeconds > 0 then
                 (Inr (),
                  m1\<lparr>states := AList.update camID
                                 (state\<lparr>untriggerDelayTimer := Some (timerCount m1)\<rparr>) (states m1),
                     timers := Timer_start (timerCount m1) (now a) untriggerSeconds camID (timers m1),
                     timerCount := Suc (timerCount m1)\<rparr>)
               else untriggerAction a camID m1))"

definition handleCameraEvent :: "api \<Rightarrow> CameraEvent \<Rightarrow> bool \<Rightarrow> manager \<Rightarrow> bool result" where
  "handleCameraEvent a ev skipAction m =
     (if type' ev = End then
        (let m1 = (case map_of (states m) (cameraID ev) of
                     None \<Rightarrow> m
                   | Some state \<Rightarrow>
                       m\<lparr>states := AList.update (cameraID ev)
                                      (state\<lparr>sources := sources state - {id' ev}\<rparr>) (states m)\<rparr>)
         in
           if (case map_of (states m1) (cameraID ev) of
                 None \<Rightarrow> True
               | Some state \<Rightarrow> sources state = {})
           then
             (case startUntrigger a (cameraID ev) m1 of
                (Inl e, m2) \<Rightarrow> (Inl e, m2)
              | (Inr _, m2) \<Rightarrow> (Inr True, m2))
           else (Inr True, m1))
      else
        (case config a of
           None \<Rightarrow> (Inr False, m)
         | Some cfg \<Rightarrow>
             (case view_camera a of
                None \<Rightarrow> (Inr False, m)
              | Some selectedCameraID \<Rightarrow>
                  if selectedCameraID = [] then (Inr False, m)
                  else if filter_selected_camera (triggers (view cfg)) \<and>
                          cameraID ev \<notin> getAllDependentCameras a selectedCameraID
                  then (Inr False, m)
                  else
                    (let state = (case map_of (states m) (cameraID ev) of
                                    None \<Rightarrow> \<lparr>lastTriggerTime = now a, sources = {},
                                             untriggerDelayTimer = None\<rparr>
                                  | Some state \<Rightarrow> state\<lparr>lastTriggerTime := now a\<rparr>);
                         m1 = m\<lparr>states := AList.update (cameraID ev)
                                            (state\<lparr>sources := insert (id' ev) (sources state)\<rparr>)
                                            (states m)\<rparr>;
                         m2 = setConditionStateIfNecessary
                                (deleteUntriggerDelayTimer (cameraID ev) m1)
                     in
                       if \<not> skipAction then
                         (case throttledTriggerAction a ev m2 of
                            (Inl e, m3) \<Rightarrow> (Inl e, m3)
                          | (Inr _, m3) \<Rightarrow> (Inr True, m3))
                       else (Inr True, m2)))))"

text \<open>
  The timer \<open>t\<close> fires: nothing happens unless it is pending and due; otherwise it is
  pending no more and its callback runs \<^verbatim>\<open>_untriggerAction\<close> for its camera.
\<close>

definition timerExpiry :: "api \<Rightarrow> Timer \<Rightarrow> manager \<Rightarrow> unit result" where
  "timerExpiry a t m =
     (case map_of (timers m) t of
        None \<Rightarrow> (Inr (), m)
      | Some (due, camID) \<Rightarrow>
          if now a < due then (Inr (), m)
          else untriggerAction a camID (m\<lparr>timers := AList.delete t (timers m)\<rparr>))"

text \<open>
  \<^verbatim>\<open>handleInitialCameraTriggers\<close>: the inner loop over the trigger entities of one camera,
  the outer loop over the cameras. The loops carry \<^verbatim>\<open>triggered\<close> and
  \<^verbatim>\<open>startupActionEvent\<close>.
\<close>

fun scanEntities ::
  "api \<Rightarrow> string \<Rightarrow> string list \<Rightarrow> bool \<times> CameraEvent option \<Rightarrow> manager \<Rightarrow>
     (bool \<times> CameraEvent option) result" where
  "scanEntities a camID [] acc m = (Inr acc, m)"
| "scanEntities a camID (entityID # entities) (triggered, startupActionEvent) m =
     (if isTriggeredState a (hass_state a entityID) then
        (case handleCameraEvent a
                \<lparr>cameraID = camID, id' = entityID, type' = New,
                 fidelity = None, clip = None, snapshot = None\<rparr> True m of
           (Inl e, m') \<Rightarrow> (Inl e, m')
         | (Inr accepted, m') \<Rightarrow>
             scanEntities a camID entities
               (True,
                if accepted \<and> startupActionEvent = None
                then Some \<lparr>cameraID = camID, id' = entityID, type' = New,
                           fidelity = None, clip = None, snapshot = None\<rparr>
                else startupActionEvent) m')
      else scanEntities a camID entities (triggered, startupActionEvent) m)"

fun scanCameras ::
  "api \<Rightarrow> (string \<times> string list) list \<Rightarrow> bool \<times> CameraEvent option \<Rightarrow> manager \<Rightarrow>
     (bool \<times> CameraEvent option) result" where
  "scanCameras a [] acc m = (Inr acc, m)"
| "scanCameras a ((camID, entities) # rest) acc m =
     (case scanEntities a camID entities acc m of
        (Inl e, m') \<Rightarrow> (Inl e, m')
      | (Inr acc', m') \<Rightarrow> scanCameras a rest acc' m')"

definition handleInitialCameraTriggers :: "api \<Rightarrow> manager \<Rightarrow> bool result" where
  "handleInitialCameraTriggers a m =
     (case scanCameras a (cameras a) (False, None) m of
        (Inl e, m') \<Rightarrow> (Inl e, m')
      | (Inr (triggered, startupActionEvent), m') \<Rightarrow>
          (case startupActionEvent of
             None \<Rightarrow> (Inr triggered, m')
           | Some ev \<Rightarrow>
               (case throttledTriggerAction a ev m' of
                  (Inl e, m'') \<Rightarrow> (Inl e, m'')
                | (Inr _, m'') \<Rightarrow> (Inr triggered, m''))))"

subsection \<open>Notions used to state the properties\<close>

text \<open>
  What the view manager was asked to do, and the events the throttled trigger action
  was called with, oldest first.
\<close>

definition navigations :: "manager \<Rightarrow> navigation list" where
  "navigations m = concat (map (\<lambda>c. case c of ViewManager n \<Rightarrow> [n] | _ \<Rightarrow> []) (calls m))"

definition dispatched :: "manager \<Rightarrow> CameraEvent list" where
  "dispatched m =
     concat (map (\<lambda>c. case c of ThrottledTriggerAction ev \<Rightarrow> [ev] | _ \<Rightarrow> []) (calls m))"

text \<open>
  An event with the required fields only, as \<^verbatim>\<open>handleInitialCameraTriggers\<close> and
  \<^verbatim>\<open>Camera._stateChangeHandler\<close> build them.
\<close>

definition event :: "string \<Rightarrow> string \<Rightarrow> event_type \<Rightarrow> CameraEvent" where
  "event c i t =
     \<lparr>cameraID = c, id' = i, type' = t, fidelity = None, clip = None, snapshot = None\<rparr>"

text \<open>
  The tests \<^verbatim>\<open>handleCameraEvent\<close> makes before it accepts a \<^verbatim>\<open>new\<close> or \<^verbatim>\<open>update\<close> event of
  a camera, as one predicate, and the manager it has built for an accepted event when it
  comes to the trigger action. Lemmas \<open>handleCameraEvent_accepted\<close> and
  \<open>handleCameraEvent_not_accepted\<close> below say that the method is made of these two.
\<close>

definition eventAccepted :: "api \<Rightarrow> string \<Rightarrow> bool" where
  "eventAccepted a camID =
     (case config a of
        None \<Rightarrow> False
      | Some cfg \<Rightarrow>
          (case view_camera a of
             None \<Rightarrow> False
           | Some selectedCameraID \<Rightarrow>
               selectedCameraID \<noteq> [] \<and>
               \<not> (filter_selected_camera (triggers (view cfg)) \<and>
                  camID \<notin> getAllDependentCameras a selectedCameraID)))"

definition acceptEvent :: "api \<Rightarrow> CameraEvent \<Rightarrow> manager \<Rightarrow> manager" where
  "acceptEvent a ev m =
     (let state = (case map_of (states m) (cameraID ev) of
                     None \<Rightarrow> \<lparr>lastTriggerTime = now a, sources = {},
                              untriggerDelayTimer = None\<rparr>
                   | Some state \<Rightarrow> state\<lparr>lastTriggerTime := now a\<rparr>);
          m1 = m\<lparr>states := AList.update (cameraID ev)
                             (state\<lparr>sources := insert (id' ev) (sources state)\<rparr>)
                             (states m)\<rparr>
      in setConditionStateIfNecessary (deleteUntriggerDelayTimer (cameraID ev) m1))"

text \<open>
  The events \<^verbatim>\<open>handleInitialCameraTriggers\<close> synthesizes, in the order of its two loops,
  and what one of them does to the manager (it is handled with \<^verbatim>\<open>skipAction\<close>). Lemma
  \<open>scanCameras_eq\<close> below says that the loops are the fold of \<open>scanStep\<close> over these
  events.
\<close>

definition synthesizedEvents :: "api \<Rightarrow> (string \<times> string list) list \<Rightarrow> CameraEvent list" where
  "synthesizedEvents a cams =
     concat (map (\<lambda>(camID, entities).
                    map (\<lambda>entityID. event camID entityID New)
                      (filter (\<lambda>entityID. isTriggeredState a (hass_state a entityID)) entities))
               cams)"

definition scanStep :: "api \<Rightarrow> CameraEvent \<Rightarrow> manager \<Rightarrow> manager" where
  "scanStep a ev m = (if eventAccepted a (cameraID ev) then acceptEvent a ev m else m)"

text \<open>
  The grace seconds \<^verbatim>\<open>_startUntrigger\<close> reads
  (\<^verbatim>\<open>config?.view?.triggers.untrigger_seconds ?? 0\<close>), and the sources of a camera, none
  for a camera without an entry.
\<close>

definition untriggerSeconds :: "api \<Rightarrow> rat" where
  "untriggerSeconds a =
     (case config a of None \<Rightarrow> 0 | Some cfg \<Rightarrow> untrigger_seconds (triggers (view cfg)))"




subsection \<open>Example inputs\<close>

text \<open>
  The configuration of the repository's tests (\<^verbatim>\<open>baseTriggersConfig\<close>) and their
  collaborators (\<^verbatim>\<open>createTriggerAPI\<close>): camera \<^verbatim>\<open>camera_1\<close> selected, no dependent cameras,
  no interaction, no navigation rejected, and the throttle wrapper replaced by the wrapped
  method. \<open>withTriggers\<close> changes the trigger options, \<open>rejecting\<close> makes the view
  manager reject every navigation.
\<close>

definition baseTriggersConfig :: TriggersOptions where
  "baseTriggersConfig =
     \<lparr>untrigger_seconds = 10, filter_selected_camera = False,
      actions = \<lparr>trigger = TriggerUpdate, untrigger = UntriggerDefault,
                 interaction_mode = Inactive\<rparr>\<rparr>"

definition createTriggerAPI :: api where
  "createTriggerAPI =
     \<lparr>config = Some \<lparr>view = \<lparr>triggers = baseTriggersConfig, view_default = ''live''\<rparr>\<rparr>,
      view_camera = Some ''camera_1'',
      getAllDependentCameras = (\<lambda>c. {c}),
      hasInteraction = False,
      hass_state = (\<lambda>entityID. None),
      cameras = [(''camera_1'', [''binary_sensor.motion''])],
      now = 0,
      isTriggeredState = (\<lambda>s. s = Some ''on'' \<or> s = Some ''open''),
      navigationRejected = (\<lambda>n. False),
      throttleInvokes = True\<rparr>"

definition withTriggers :: "(TriggersOptions \<Rightarrow> TriggersOptions) \<Rightarrow> api \<Rightarrow> api" where
  "withTriggers f a =
     a\<lparr>config := map_option
          (\<lambda>cfg. cfg\<lparr>view := (view cfg)\<lparr>triggers := f (triggers (view cfg))\<rparr>\<rparr>) (config a)\<rparr>"

definition withTrigger :: "trigger_action \<Rightarrow> api \<Rightarrow> api" where
  "withTrigger t = withTriggers (\<lambda>opts. opts\<lparr>actions := (actions opts)\<lparr>trigger := t\<rparr>\<rparr>)"

definition filterSelectedCamera :: "api \<Rightarrow> api" where
  "filterSelectedCamera = withTriggers (\<lambda>opts. opts\<lparr>filter_selected_camera := True\<rparr>)"


text \<open>
  The event of the test "should ignore high-fidelity events when trigger action is not
  live".
\<close>

definition highFidelityEvent :: CameraEvent where
  "highFidelityEvent =
     \<lparr>cameraID = ''camera_1'', id' = ''event-1'', type' = New, fidelity = Some High,
      clip = Some False, snapshot = Some False\<rparr>"

text \<open>
  The two cameras of the test "should prioritize the first triggered camera action at
  startup", each with its motion sensor on.
\<close>

definition startupAPI :: api where
  "startupAPI =
     createTriggerAPI
       \<lparr>cameras := [(''camera_1'', [''binary_sensor.motion_1'']),
                    (''camera_2'', [''binary_sensor.motion_2''])],
        hass_state := (\<lambda>entityID.
           if entityID = ''binary_sensor.motion_1'' \<or> entityID = ''binary_sensor.motion_2''
           then Some ''on'' else None)\<rparr>"

text \<open>
  The test "should cancel untrigger timer if a new trigger starts": a \<^verbatim>\<open>new\<close> event of
  \<^verbatim>\<open>entity_1\<close> at second 0 and its \<^verbatim>\<open>end\<close> at second 1, with ten grace seconds.
\<close>

definition afterNew :: manager where
  "afterNew =
     snd (handleCameraEvent createTriggerAPI (event ''camera_1'' ''entity_1'' New) False
            new_TriggersManager)"

definition afterEnd :: manager where
  "afterEnd =
     snd (handleCameraEvent (createTriggerAPI\<lparr>now := 1\<rparr>) (event ''camera_1'' ''entity_1'' End)
            False afterNew)"

section \<open>Properties\<close>

subsection \<open>Frame lemmas\<close>

lemma navigations_calls_append [simp]:
  "navigations (m\<lparr>calls := calls m @ cs\<rparr>) =
     navigations m @ concat (map (\<lambda>c. case c of ViewManager n \<Rightarrow> [n] | _ \<Rightarrow> []) cs)"
  by (simp add: navigations_def)

lemma calls_deleteUntriggerDelayTimer [simp]:
  "calls (deleteUntriggerDelayTimer c m) = calls m"
  by (simp add: deleteUntriggerDelayTimer_def split: option.splits)

subsection \<open>The interaction gate without a configuration\<close>

lemma gate_no_config: "config a = None \<Longrightarrow> \<not> hasAllowableInteractionStateForAction a"
  by (simp add: hasAllowableInteractionStateForAction_def)

lemma triggerAction_no_config:
  "config a = None \<Longrightarrow>
     triggerAction a ev m = (Inr (), m) \<or>
     triggerAction a ev m = (Inr (), m\<lparr>calls := calls m @ [CardElement_update]\<rparr>)"
  by (simp add: triggerAction_def hasAllowableInteractionStateForAction_def)

lemma executeUntriggerAction_no_config:
  "config a = None \<Longrightarrow> executeUntriggerAction a m = (Inr True, m)"
  by (simp add: executeUntriggerAction_def)

text \<open>
  Claim C9. When the configuration (and with it the trigger configuration) is absent,
  \<^verbatim>\<open>_hasAllowableInteractionStateForAction\<close> is false whatever the interaction state is,
  and neither the trigger path (\<^verbatim>\<open>_triggerAction\<close>, directly, through the throttle
  wrapper or at its later invocation) nor the untrigger path
  (\<^verbatim>\<open>_executeUntriggerAction\<close>, \<^verbatim>\<open>_untriggerAction\<close>, the expiry of a timer) calls the
  view manager.
\<close>

theorem gate_closed_without_config:
  assumes "config a = None"
  shows "\<not> hasAllowableInteractionStateForAction a \<and>
         navigations (snd (triggerAction a ev m)) = navigations m \<and>
         navigations (snd (throttledTriggerAction a ev m)) = navigations m \<and>
         navigations (snd (throttleTrailing a m)) = navigations m \<and>
         navigations (snd (executeUntriggerAction a m)) = navigations m \<and>
         navigations (snd (untriggerAction a camID m)) = navigations m \<and>
         navigations (snd (timerExpiry a t m)) = navigations m"
proof -
  have t: "navigations (snd (triggerAction a ev' m')) = navigations m'" for ev' m'
    using triggerAction_no_config [OF assms, of ev' m'] by auto
  have u: "navigations (snd (untriggerAction a c m')) = navigations m'" for c m'
    by (simp add: untriggerAction_def executeUntriggerAction_no_config [OF assms]
        setConditionStateIfNecessary_def navigations_def)
  have "navigations (snd (throttledTriggerAction a ev m)) = navigations m"
    using t [of ev "m\<lparr>calls := calls m @ [ThrottledTriggerAction ev]\<rparr>"]
    by (simp add: throttledTriggerAction_def navigations_def)
  moreover have "navigations (snd (throttleTrailing a m)) = navigations m"
    using t by (simp add: throttleTrailing_def navigations_def split: option.splits)
  moreover have "navigations (snd (timerExpiry a t m)) = navigations m"
    using u by (simp add: timerExpiry_def navigations_def split: option.splits)
  ultimately show ?thesis
    using t u by (simp add: gate_no_config [OF assms] executeUntriggerAction_no_config [OF assms])
qed

text \<open>
  With \<^verbatim>\<open>getConfig()\<close> returning \<^verbatim>\<open>null\<close>, as in the test "should handle newly missing
  configuration", and an interaction going on, a trigger action and an untrigger action on
  a new manager ask nothing of the view manager.
\<close>

theorem gate_closed_without_config_witness:
  "config (createTriggerAPI\<lparr>config := None, hasInteraction := True\<rparr>) = None \<and>
   \<not> hasAllowableInteractionStateForAction
       (createTriggerAPI\<lparr>config := None, hasInteraction := True\<rparr>) \<and>
   navigations (snd (triggerAction (createTriggerAPI\<lparr>config := None, hasInteraction := True\<rparr>)
                  (event ''camera_1'' ''e1'' New) new_TriggersManager)) = [] \<and>
   navigations (snd (untriggerAction (createTriggerAPI\<lparr>config := None, hasInteraction := True\<rparr>)
                  ''camera_1'' new_TriggersManager)) = []"
  using gate_closed_without_config
          [of "createTriggerAPI\<lparr>config := None, hasInteraction := True\<rparr>"
              "event ''camera_1'' ''e1'' New" new_TriggersManager "''camera_1''"]
  by (simp add: navigations_def new_TriggersManager_def)

subsection \<open>High-fidelity events without media\<close>

text \<open>
  Claim C6. For an event of fidelity \<^verbatim>\<open>high\<close> whose clip and snapshot are both unset or
  false, \<^verbatim>\<open>_triggerAction\<close> returns at once and leaves the manager as it was (no call to any
  collaborator, whatever the interaction gate would say) unless the configured trigger
  action is \<^verbatim>\<open>live\<close>, or \<^verbatim>\<open>default\<close> with the default view \<^verbatim>\<open>live\<close>; this includes the
  action \<^verbatim>\<open>media\<close>. With the action \<^verbatim>\<open>live\<close> (or \<^verbatim>\<open>default\<close> and default view \<^verbatim>\<open>live\<close>) the
  event goes on to the gate: when the gate allows it the view manager is asked for the
  live view (the default view) of the event's camera, and in any case that does not end in
  a rejection the card element is updated.
\<close>

theorem high_fidelity_suppression:
  assumes "fidelity ev = Some High" and "\<not> truthy (clip ev)" and "\<not> truthy (snapshot ev)"
  shows "(config a = None \<longrightarrow> triggerAction a ev m = (Inr (), m)) \<and>
         (\<forall>cfg. config a = Some cfg \<longrightarrow>
            (trigger (actions (triggers (view cfg))) \<noteq> TriggerLive \<and>
             \<not> (trigger (actions (triggers (view cfg))) = TriggerDefault \<and>
                view_default (view cfg) = ''live'') \<longrightarrow>
               triggerAction a ev m = (Inr (), m)) \<and>
            (trigger (actions (triggers (view cfg))) = TriggerMedia \<longrightarrow>
               triggerAction a ev m = (Inr (), m)) \<and>
            (trigger (actions (triggers (view cfg))) = TriggerLive \<longrightarrow>
               triggerAction a ev m =
                 (if \<not> hasAllowableInteractionStateForAction a
                  then (Inr (), m\<lparr>calls := calls m @ [CardElement_update]\<rparr>)
                  else if navigationRejected a
                            (SetViewByParametersWithNewQuery ''live'' (cameraID ev))
                  then (Inl (NavigationRejected
                               (SetViewByParametersWithNewQuery ''live'' (cameraID ev))),
                        m\<lparr>calls := calls m @
                           [ViewManager (SetViewByParametersWithNewQuery ''live'' (cameraID ev))]\<rparr>)
                  else (Inr (),
                        m\<lparr>calls := calls m @
                           [ViewManager (SetViewByParametersWithNewQuery ''live'' (cameraID ev)),
                            CardElement_update]\<rparr>))) \<and>
            (trigger (actions (triggers (view cfg))) = TriggerDefault \<and>
             view_default (view cfg) = ''live'' \<longrightarrow>
               triggerAction a ev m =
                 (if \<not> hasAllowableInteractionStateForAction a
                  then (Inr (), m\<lparr>calls := calls m @ [CardElement_update]\<rparr>)
                  else if navigationRejected a (SetViewDefaultWithNewQuery (Some (cameraID ev)))
                  then (Inl (NavigationRejected (SetViewDefaultWithNewQuery (Some (cameraID ev)))),
                        m\<lparr>calls := calls m @
                           [ViewManager (SetViewDefaultWithNewQuery (Some (cameraID ev)))]\<rparr>)
                  else (Inr (),
                        m\<lparr>calls := calls m @
                           [ViewManager (SetViewDefaultWithNewQuery (Some (cameraID ev))),
                            CardElement_update]\<rparr>))))"
  using assms by (simp add: triggerAction_def navigate_def)

theorem high_fidelity_suppression_witness:
  "fidelity highFidelityEvent = Some High \<and> \<not> truthy (clip highFidelityEvent) \<and>
   \<not> truthy (snapshot highFidelityEvent) \<and>
   triggerAction (withTrigger TriggerMedia createTriggerAPI) highFidelityEvent new_TriggersManager =
     (Inr (), new_TriggersManager) \<and>
   calls (snd (triggerAction (withTrigger TriggerLive createTriggerAPI) highFidelityEvent
                 new_TriggersManager)) =
     [ViewManager (SetViewByParametersWithNewQuery ''live'' ''camera_1''), CardElement_update]"
  using high_fidelity_suppression
          [of highFidelityEvent "withTrigger TriggerMedia createTriggerAPI" new_TriggersManager]
        high_fidelity_suppression
          [of highFidelityEvent "withTrigger TriggerLive createTriggerAPI" new_TriggersManager]
  by (simp add: highFidelityEvent_def withTrigger_def withTriggers_def createTriggerAPI_def
      baseTriggersConfig_def truthy_def hasAllowableInteractionStateForAction_def
      new_TriggersManager_def)

subsection \<open>Which events are accepted\<close>

lemma executeUntriggerAction_outcome:
  "fst (executeUntriggerAction a m) = Inr True \<or>
   (navigationRejected a (SetViewDefaultWithNewQuery None) \<and>
    fst (executeUntriggerAction a m) = Inl (NavigationRejected (SetViewDefaultWithNewQuery None)))"
  by (simp add: executeUntriggerAction_def navigate_def)

lemma untriggerAction_outcome:
  "fst (untriggerAction a c m) = Inr () \<or>
   (navigationRejected a (SetViewDefaultWithNewQuery None) \<and>
    fst (untriggerAction a c m) = Inl (NavigationRejected (SetViewDefaultWithNewQuery None)))"
  using executeUntriggerAction_outcome [of a "deleteUntriggerDelayTimer c m"]
  by (auto simp: untriggerAction_def split: prod.splits sum.splits)

lemma startUntrigger_outcome:
  "fst (startUntrigger a c m) = Inr () \<or>
   (navigationRejected a (SetViewDefaultWithNewQuery None) \<and>
    fst (startUntrigger a c m) = Inl (NavigationRejected (SetViewDefaultWithNewQuery None)))"
  using untriggerAction_outcome [of a c "deleteUntriggerDelayTimer c m"]
  by (auto simp: startUntrigger_def Let_def split: option.splits)

lemma handleCameraEvent_End_outcome:
  assumes "type' ev = End"
  shows "fst (handleCameraEvent a ev skipAction m) = Inr True \<or>
   (navigationRejected a (SetViewDefaultWithNewQuery None) \<and>
    fst (handleCameraEvent a ev skipAction m) =
      Inl (NavigationRejected (SetViewDefaultWithNewQuery None)))"
proof -
  define m1 where "m1 = (case map_of (states m) (cameraID ev) of
                     None \<Rightarrow> m
                   | Some state \<Rightarrow>
                       m\<lparr>states := AList.update (cameraID ev)
                                      (state\<lparr>sources := sources state - {id' ev}\<rparr>) (states m)\<rparr>)"
  show ?thesis
    using startUntrigger_outcome [of a "cameraID ev" m1] assms
    unfolding handleCameraEvent_def Let_def m1_def [symmetric]
    by (auto split: prod.splits sum.splits)
qed

lemma handleCameraEvent_End_no_state:
  assumes "type' ev = End" and "map_of (states m) (cameraID ev) = None"
  shows "handleCameraEvent a ev skipAction m = (Inr True, m)"
  using assms
  by (simp add: handleCameraEvent_def startUntrigger_def deleteUntriggerDelayTimer_def)

text \<open>
  Claim C4. A \<^verbatim>\<open>new\<close> or \<^verbatim>\<open>update\<close> event is answered \<^verbatim>\<open>false\<close>, the manager unchanged, when
  there is no configuration, no selected camera (no view, or an empty camera name), or
  when \<^verbatim>\<open>filter_selected_camera\<close> is set and the event's camera is not among the dependent
  cameras of the selected one. An \<^verbatim>\<open>end\<close> event is never answered \<^verbatim>\<open>false\<close>: no filter
  applies, the answer is \<^verbatim>\<open>true\<close> unless the untrigger navigation it may run is rejected
  (the rejection then reaches the caller), and for a camera without an entry in the store
  the answer is \<^verbatim>\<open>true\<close> and the manager is unchanged.
\<close>

theorem handleCameraEvent_rejects_and_end_accepts:
  "(type' ev \<noteq> End \<and>
      (config a = None \<or> view_camera a = None \<or> view_camera a = Some [] \<or>
       (\<exists>cfg selectedCameraID. config a = Some cfg \<and> view_camera a = Some selectedCameraID \<and>
          filter_selected_camera (triggers (view cfg)) \<and>
          cameraID ev \<notin> getAllDependentCameras a selectedCameraID))
      \<longrightarrow> handleCameraEvent a ev skipAction m = (Inr False, m)) \<and>
   (type' ev = End \<longrightarrow>
      fst (handleCameraEvent a ev skipAction m) \<noteq> Inr False \<and>
      (\<not> navigationRejected a (SetViewDefaultWithNewQuery None) \<longrightarrow>
         fst (handleCameraEvent a ev skipAction m) = Inr True) \<and>
      (map_of (states m) (cameraID ev) = None \<longrightarrow>
         handleCameraEvent a ev skipAction m = (Inr True, m)))"
proof -
  have "handleCameraEvent a ev skipAction m = (Inr False, m)"
    if "type' ev \<noteq> End"
      and "config a = None \<or> view_camera a = None \<or> view_camera a = Some [] \<or>
       (\<exists>cfg selectedCameraID. config a = Some cfg \<and> view_camera a = Some selectedCameraID \<and>
          filter_selected_camera (triggers (view cfg)) \<and>
          cameraID ev \<notin> getAllDependentCameras a selectedCameraID)"
    using that by (auto simp: handleCameraEvent_def split: option.splits)
  moreover have "fst (handleCameraEvent a ev skipAction m) \<noteq> Inr False"
    and "\<not> navigationRejected a (SetViewDefaultWithNewQuery None) \<longrightarrow>
         fst (handleCameraEvent a ev skipAction m) = Inr True" if "type' ev = End"
    using handleCameraEvent_End_outcome [OF that, of a skipAction m] by auto
  ultimately show ?thesis
    using handleCameraEvent_End_no_state [of ev m a skipAction] by blast
qed

text \<open>
  The tests "should filter triggers when there are no dependencies" (an event of
  \<^verbatim>\<open>camera_2\<close> with \<^verbatim>\<open>camera_1\<close> selected) and "should handle untrigger call with no
  state".
\<close>

theorem handleCameraEvent_rejects_and_end_accepts_witness:
  "handleCameraEvent
     (withTriggers (\<lambda>opts. opts\<lparr>filter_selected_camera := True\<rparr>) createTriggerAPI)
     (event ''camera_2'' ''event-1'' New) False new_TriggersManager =
     (Inr False, new_TriggersManager) \<and>
   handleCameraEvent createTriggerAPI (event ''camera_1'' ''unknown-id'' End) False
     new_TriggersManager = (Inr True, new_TriggersManager)"
  using handleCameraEvent_rejects_and_end_accepts
          [of "event ''camera_2'' ''event-1'' New"
              "withTriggers (\<lambda>opts. opts\<lparr>filter_selected_camera := True\<rparr>) createTriggerAPI"
              False new_TriggersManager]
        handleCameraEvent_rejects_and_end_accepts
          [of "event ''camera_1'' ''unknown-id'' End" createTriggerAPI False new_TriggersManager]
  by (simp add: event_def withTriggers_def createTriggerAPI_def baseTriggersConfig_def
      new_TriggersManager_def)

subsection \<open>Accepted events and the startup scan\<close>

lemma mem_getTriggeredCameraIDs:
  "c \<in> getTriggeredCameraIDs m \<longleftrightarrow> (\<exists>st. (c, st) \<in> set (states m) \<and> isStateTriggered st)"
  by (force simp: getTriggeredCameraIDs_def)

lemma set_update_subset: "set (AList.update k v al) \<subseteq> insert (k, v) (set al)"
  by (induction al) auto

lemma in_set_update_other: "(k', v') \<in> set al \<Longrightarrow> k' \<noteq> k \<Longrightarrow> (k', v') \<in> set (AList.update k v al)"
  by (induction al) auto

lemma states_setConditionStateIfNecessary [simp]:
  "states (setConditionStateIfNecessary m) = states m"
  by (simp add: setConditionStateIfNecessary_def)

lemma timers_setConditionStateIfNecessary [simp]:
  "timers (setConditionStateIfNecessary m) = timers m"
  by (simp add: setConditionStateIfNecessary_def)


lemma states_deleteUntriggerDelayTimer:
  "map_of (states m) c = Some st \<Longrightarrow>
     states (deleteUntriggerDelayTimer c m) =
       AList.update c (st\<lparr>untriggerDelayTimer := None\<rparr>) (states m)"
  by (cases "untriggerDelayTimer st") (simp_all add: deleteUntriggerDelayTimer_def update_triv)

lemma handleCameraEvent_accepted:
  assumes "type' ev \<noteq> End" and "eventAccepted a (cameraID ev)"
  shows "handleCameraEvent a ev skipAction m =
           (if skipAction then (Inr True, acceptEvent a ev m)
            else (case throttledTriggerAction a ev (acceptEvent a ev m) of
                    (Inl e, m3) \<Rightarrow> (Inl e, m3)
                  | (Inr _, m3) \<Rightarrow> (Inr True, m3)))"
  using assms
  by (auto simp: handleCameraEvent_def eventAccepted_def acceptEvent_def Let_def
      split: option.splits)

lemma handleCameraEvent_not_accepted:
  assumes "type' ev \<noteq> End" and "\<not> eventAccepted a (cameraID ev)"
  shows "handleCameraEvent a ev skipAction m = (Inr False, m)"
  using assms
  by (auto simp: handleCameraEvent_def eventAccepted_def split: option.splits)

lemma states_acceptEvent:
  "states (acceptEvent a ev m) =
     AList.update (cameraID ev)
       (case map_of (states m) (cameraID ev) of
          None \<Rightarrow> \<lparr>lastTriggerTime = now a, sources = {id' ev}, untriggerDelayTimer = None\<rparr>
        | Some state \<Rightarrow> state\<lparr>lastTriggerTime := now a, sources := insert (id' ev) (sources state),
                             untriggerDelayTimer := None\<rparr>)
       (states m)"
  by (simp add: acceptEvent_def Let_def states_deleteUntriggerDelayTimer update_conv'
      split: option.splits)

lemma calls_acceptEvent:
  "calls (acceptEvent a ev m) =
     calls m @ [ConditionState_setState
                  (if getTriggeredCameraIDs (acceptEvent a ev m) \<noteq> {}
                   then Some (getTriggeredCameraIDs (acceptEvent a ev m)) else None)]"
  by (simp add: acceptEvent_def Let_def setConditionStateIfNecessary_def getTriggeredCameraIDs_def)

lemma dispatched_calls_append [simp]:
  "dispatched (m\<lparr>calls := calls m @ cs\<rparr>) =
     dispatched m @ concat (map (\<lambda>c. case c of ThrottledTriggerAction ev \<Rightarrow> [ev] | _ \<Rightarrow> []) cs)"
  by (simp add: dispatched_def)

lemma dispatched_acceptEvent [simp]: "dispatched (acceptEvent a ev m) = dispatched m"
  by (simp add: dispatched_def calls_acceptEvent)

lemma acceptEvent_triggered: "cameraID ev \<in> getTriggeredCameraIDs (acceptEvent a ev m)"
proof -
  have "\<exists>st. map_of (states (acceptEvent a ev m)) (cameraID ev) = Some st \<and> id' ev \<in> sources st"
    by (simp add: states_acceptEvent update_conv' split: option.splits)
  then obtain st where "map_of (states (acceptEvent a ev m)) (cameraID ev) = Some st"
    and "id' ev \<in> sources st" by blast
  then have "(cameraID ev, st) \<in> set (states (acceptEvent a ev m))" and "isStateTriggered st"
    by (auto simp: isStateTriggered_def dest: map_of_SomeD)
  then show ?thesis by (auto simp: mem_getTriggeredCameraIDs)
qed

lemma acceptEvent_mono: "getTriggeredCameraIDs m \<subseteq> getTriggeredCameraIDs (acceptEvent a ev m)"
proof
  fix c assume "c \<in> getTriggeredCameraIDs m"
  then obtain st where st: "(c, st) \<in> set (states m)" "isStateTriggered st"
    by (auto simp: mem_getTriggeredCameraIDs)
  show "c \<in> getTriggeredCameraIDs (acceptEvent a ev m)"
  proof (cases "c = cameraID ev")
    case True
    then show ?thesis by (simp add: acceptEvent_triggered)
  next
    case False
    with st have "(c, st) \<in> set (states (acceptEvent a ev m))"
      by (simp add: states_acceptEvent in_set_update_other)
    with st show ?thesis by (auto simp: mem_getTriggeredCameraIDs)
  qed
qed

lemma handleCameraEvent_skip:
  "type' ev \<noteq> End \<Longrightarrow>
     handleCameraEvent a ev True m = (Inr (eventAccepted a (cameraID ev)), scanStep a ev m)"
  by (simp add: scanStep_def handleCameraEvent_accepted handleCameraEvent_not_accepted)

lemma synthesizedEvents_entity:
  "synthesizedEvents a [(c, e # es)] =
     (if isTriggeredState a (hass_state a e) then [event c e New] else []) @
     synthesizedEvents a [(c, es)]"
  by (simp add: synthesizedEvents_def)

lemma synthesizedEvents_no_entity: "synthesizedEvents a [(c, [])] = []"
  by (simp add: synthesizedEvents_def)

lemma find_append':
  "List.find P (xs @ ys) = (case List.find P xs of None \<Rightarrow> List.find P ys | Some x \<Rightarrow> Some x)"
  by (induction xs) simp_all

lemma scanEntities_eq:
  "scanEntities a c es (t, s) m =
     (Inr (t \<or> synthesizedEvents a [(c, es)] \<noteq> [],
           case s of
             None \<Rightarrow> List.find (\<lambda>ev. eventAccepted a (cameraID ev)) (synthesizedEvents a [(c, es)])
           | Some ev \<Rightarrow> Some ev),
      fold (scanStep a) (synthesizedEvents a [(c, es)]) m)"
proof (induction es arbitrary: t s m)
  case Nil
  then show ?case by (simp add: synthesizedEvents_no_entity split: option.splits)
next
  case (Cons e es)
  show ?case
  proof (cases "isTriggeredState a (hass_state a e)")
    case True
    have ev: "\<lparr>cameraID = c, id' = e, type' = New, fidelity = None, clip = None, snapshot = None\<rparr>
              = event c e New" by (simp add: event_def)
    have ty: "type' (event c e New) \<noteq> End" and cam: "cameraID (event c e New) = c"
      by (simp_all add: event_def)
    from True show ?thesis
      using Cons.IH
      by (simp add: ev handleCameraEvent_skip [OF ty] cam synthesizedEvents_entity
          split: option.splits)
  next
    case False
    then show ?thesis
      using Cons.IH [of t s m] by (cases s) (simp_all add: synthesizedEvents_entity)
  qed
qed

lemma synthesizedEvents_Cons:
  "synthesizedEvents a ((c, es) # rest) = synthesizedEvents a [(c, es)] @ synthesizedEvents a rest"
  by (simp add: synthesizedEvents_def)

lemma scanCameras_eq:
  "scanCameras a cams (t, s) m =
     (Inr (t \<or> synthesizedEvents a cams \<noteq> [],
           case s of
             None \<Rightarrow> List.find (\<lambda>ev. eventAccepted a (cameraID ev)) (synthesizedEvents a cams)
           | Some ev \<Rightarrow> Some ev),
      fold (scanStep a) (synthesizedEvents a cams) m)"
proof (induction cams arbitrary: t s m)
  case Nil
  then show ?case by (simp add: synthesizedEvents_def split: option.splits)
next
  case (Cons cam cams)
  obtain c es where cam: "cam = (c, es)" by (cases cam)
  show ?case
    unfolding cam
    by (simp add: scanEntities_eq Cons.IH synthesizedEvents_Cons [of a c es cams]
        find_append' split: option.splits)
qed

lemma mem_synthesizedEvents:
  "ev \<in> set (synthesizedEvents a cams) \<longleftrightarrow>
     (\<exists>(c, es) \<in> set cams. \<exists>e \<in> set es. isTriggeredState a (hass_state a e) \<and> ev = event c e New)"
  by (auto simp: synthesizedEvents_def)

lemma synthesizedEvents_nonempty:
  "synthesizedEvents a cams \<noteq> [] \<longleftrightarrow>
     (\<exists>(c, es) \<in> set cams. \<exists>e \<in> set es. isTriggeredState a (hass_state a e))"
proof -
  have "synthesizedEvents a cams \<noteq> [] \<longleftrightarrow> (\<exists>ev. ev \<in> set (synthesizedEvents a cams))"
    by (cases "synthesizedEvents a cams") auto
  then show ?thesis unfolding mem_synthesizedEvents by auto
qed

lemma states_navigate [simp]: "states (snd (navigate a n m)) = states m"
  and timers_navigate [simp]: "timers (snd (navigate a n m)) = timers m"
  and dispatched_navigate [simp]: "dispatched (snd (navigate a n m)) = dispatched m"
  by (simp_all add: navigate_def dispatched_def)

lemma navigate_outcome:
  "fst (navigate a n m) = Inr () \<or>
   (navigationRejected a n \<and> fst (navigate a n m) = Inl (NavigationRejected n))"
  by (simp add: navigate_def)

lemma triggerAction_frame:
  "states (snd (triggerAction a ev m)) = states m \<and>
   timers (snd (triggerAction a ev m)) = timers m \<and>
   timerCount (snd (triggerAction a ev m)) = timerCount m \<and>
   dispatched (snd (triggerAction a ev m)) = dispatched m"
  by (simp add: triggerAction_def navigate_def dispatched_def Let_def)

lemma triggerAction_outcome:
  "fst (triggerAction a ev m) = Inr () \<or>
   (\<exists>n. navigationRejected a n \<and> fst (triggerAction a ev m) = Inl (NavigationRejected n))"
  by (simp add: triggerAction_def navigate_def Let_def)

lemma throttledTriggerAction_frame:
  "states (snd (throttledTriggerAction a ev m)) = states m \<and>
   timers (snd (throttledTriggerAction a ev m)) = timers m \<and>
   timerCount (snd (throttledTriggerAction a ev m)) = timerCount m \<and>
   dispatched (snd (throttledTriggerAction a ev m)) = dispatched m @ [ev]"
  using triggerAction_frame [of a ev "m\<lparr>calls := calls m @ [ThrottledTriggerAction ev]\<rparr>"]
  by (simp add: throttledTriggerAction_def dispatched_def)

lemma throttledTriggerAction_outcome:
  "fst (throttledTriggerAction a ev m) = Inr () \<or>
   (\<exists>n. navigationRejected a n \<and> fst (throttledTriggerAction a ev m) = Inl (NavigationRejected n))"
  using triggerAction_outcome [of a ev "m\<lparr>calls := calls m @ [ThrottledTriggerAction ev]\<rparr>"]
  by (simp add: throttledTriggerAction_def)

lemma getTriggeredCameraIDs_cong:
  "states m' = states m \<Longrightarrow> getTriggeredCameraIDs m' = getTriggeredCameraIDs m"
  by (simp add: getTriggeredCameraIDs_def)

lemma handleInitialCameraTriggers_eq:
  "handleInitialCameraTriggers a m =
     (case List.find (\<lambda>ev. eventAccepted a (cameraID ev)) (synthesizedEvents a (cameras a)) of
        None \<Rightarrow> (Inr (synthesizedEvents a (cameras a) \<noteq> []),
                 fold (scanStep a) (synthesizedEvents a (cameras a)) m)
      | Some ev \<Rightarrow>
          (case throttledTriggerAction a ev
                  (fold (scanStep a) (synthesizedEvents a (cameras a)) m) of
             (Inl e, m'') \<Rightarrow> (Inl e, m'')
           | (Inr _, m'') \<Rightarrow> (Inr (synthesizedEvents a (cameras a) \<noteq> []), m'')))"
  by (simp add: handleInitialCameraTriggers_def scanCameras_eq)

lemma fold_scanStep_rejected:
  "\<forall>ev \<in> set evs. \<not> eventAccepted a (cameraID ev) \<Longrightarrow> fold (scanStep a) evs m = m"
  by (induction evs arbitrary: m) (simp_all add: scanStep_def)

lemma dispatched_fold_scanStep [simp]: "dispatched (fold (scanStep a) evs m) = dispatched m"
  by (induction evs arbitrary: m) (simp_all add: scanStep_def)

lemma scanStep_mono: "getTriggeredCameraIDs m \<subseteq> getTriggeredCameraIDs (scanStep a ev m)"
  using acceptEvent_mono by (simp add: scanStep_def)

lemma fold_scanStep_mono: "getTriggeredCameraIDs m \<subseteq> getTriggeredCameraIDs (fold (scanStep a) evs m)"
proof (induction evs arbitrary: m)
  case Nil
  then show ?case by simp
next
  case (Cons ev evs)
  show ?case using scanStep_mono [of m a ev] Cons.IH [of "scanStep a ev m"] by auto
qed

lemma fold_scanStep_triggered:
  "ev \<in> set evs \<Longrightarrow> eventAccepted a (cameraID ev) \<Longrightarrow>
     cameraID ev \<in> getTriggeredCameraIDs (fold (scanStep a) evs m)"
proof (induction evs arbitrary: m)
  case Nil
  then show ?case by simp
next
  case (Cons x evs)
  show ?case
  proof (cases "ev = x")
    case True
    with Cons.prems have "cameraID ev \<in> getTriggeredCameraIDs (scanStep a x m)"
      by (simp add: scanStep_def acceptEvent_triggered)
    then show ?thesis using fold_scanStep_mono [of "scanStep a x m" a evs] by auto
  next
    case False
    with Cons show ?thesis by simp
  qed
qed

lemma map_of_states_acceptEvent_other:
  "c \<noteq> cameraID ev \<Longrightarrow> map_of (states (acceptEvent a ev m)) c = map_of (states m) c"
  by (simp add: states_acceptEvent update_conv')

lemma fold_scanStep_other:
  "\<not> eventAccepted a c \<Longrightarrow> map_of (states (fold (scanStep a) evs m)) c = map_of (states m) c"
proof (induction evs arbitrary: m)
  case Nil
  then show ?case by simp
next
  case (Cons ev evs)
  have "map_of (states (scanStep a ev m)) c = map_of (states m) c"
  proof (cases "eventAccepted a (cameraID ev)")
    case True
    with Cons.prems have "c \<noteq> cameraID ev" by auto
    then show ?thesis by (simp add: scanStep_def map_of_states_acceptEvent_other)
  next
    case False
    then show ?thesis by (simp add: scanStep_def)
  qed
  with Cons show ?case by simp
qed

text \<open>
  Claim C10. \<^verbatim>\<open>handleInitialCameraTriggers\<close> returns \<^verbatim>\<open>true\<close> exactly when some camera of the store
  has a trigger entity whose current state \<^verbatim>\<open>isTriggeredState\<close> accepts (the only other
  outcome is the rejection of the one navigation it may make at the end). When every
  synthesized event is rejected by the filter, it returns that boolean and leaves the
  manager as it was: nothing is marked in the store and nothing is dispatched, although
  the boolean may be \<^verbatim>\<open>true\<close>.
\<close>

theorem initial_triggers_result:
  "(fst (handleInitialCameraTriggers a m) =
      Inr (\<exists>(camID, entities) \<in> set (cameras a).
             \<exists>entityID \<in> set entities. isTriggeredState a (hass_state a entityID)) \<or>
    (\<exists>n. navigationRejected a n \<and>
         fst (handleInitialCameraTriggers a m) = Inl (NavigationRejected n))) \<and>
   ((\<forall>ev \<in> set (synthesizedEvents a (cameras a)). \<not> eventAccepted a (cameraID ev)) \<longrightarrow>
      handleInitialCameraTriggers a m =
        (Inr (\<exists>(camID, entities) \<in> set (cameras a).
                \<exists>entityID \<in> set entities. isTriggeredState a (hass_state a entityID)), m))"
proof -
  let ?evs = "synthesizedEvents a (cameras a)"
  let ?m' = "fold (scanStep a) ?evs m"
  have any: "(?evs \<noteq> []) =
      (\<exists>(camID, entities) \<in> set (cameras a).
             \<exists>entityID \<in> set entities. isTriggeredState a (hass_state a entityID))"
    by (rule synthesizedEvents_nonempty)
  have one: "fst (handleInitialCameraTriggers a m) = Inr (?evs \<noteq> []) \<or>
    (\<exists>n. navigationRejected a n \<and>
         fst (handleInitialCameraTriggers a m) = Inl (NavigationRejected n))"
  proof (cases "List.find (\<lambda>ev. eventAccepted a (cameraID ev)) ?evs")
    case None
    then show ?thesis by (simp add: handleInitialCameraTriggers_eq)
  next
    case (Some ev)
    show ?thesis
      using throttledTriggerAction_outcome [of a ev ?m']
      by (auto simp: handleInitialCameraTriggers_eq Some split: prod.splits sum.splits)
  qed
  have two: "handleInitialCameraTriggers a m = (Inr (?evs \<noteq> []), m)"
    if rej: "\<forall>ev \<in> set ?evs. \<not> eventAccepted a (cameraID ev)"
  proof -
    from rej have "List.find (\<lambda>ev. eventAccepted a (cameraID ev)) ?evs = None"
      by (simp add: find_None_iff)
    then show ?thesis
      by (simp add: handleInitialCameraTriggers_eq fold_scanStep_rejected [OF rej])
  qed
  show ?thesis using one two unfolding any by blast
qed

text \<open>
  Claim C5, amended. Of the cameras that have a trigger entity in a triggered state,
  \<^verbatim>\<open>handleInitialCameraTriggers\<close> marks as triggered those whose event the filter accepts and
  leaves the entry of the others as it was. The throttled trigger action is called once,
  with the first accepted event in enumeration order, when there is an accepted event, and
  not at all otherwise.
\<close>

theorem initial_triggers_mark_and_dispatch_once:
  "(\<forall>(camID, entities) \<in> set (cameras a).
      (\<exists>entityID \<in> set entities. isTriggeredState a (hass_state a entityID)) \<longrightarrow>
      (if eventAccepted a camID
       then camID \<in> getTriggeredCameraIDs (snd (handleInitialCameraTriggers a m))
       else map_of (states (snd (handleInitialCameraTriggers a m))) camID =
            map_of (states m) camID)) \<and>
   dispatched (snd (handleInitialCameraTriggers a m)) =
     dispatched m @
     (case List.find (\<lambda>ev. eventAccepted a (cameraID ev)) (synthesizedEvents a (cameras a)) of
        None \<Rightarrow> []
      | Some ev \<Rightarrow> [ev])"
proof -
  let ?evs = "synthesizedEvents a (cameras a)"
  let ?m' = "fold (scanStep a) ?evs m"
  let ?r = "handleInitialCameraTriggers a m"
  have "states (snd ?r) = states ?m' \<and>
        dispatched (snd ?r) = dispatched m @
          (case List.find (\<lambda>ev. eventAccepted a (cameraID ev)) ?evs of
             None \<Rightarrow> [] | Some ev \<Rightarrow> [ev])"
  proof (cases "List.find (\<lambda>ev. eventAccepted a (cameraID ev)) ?evs")
    case None
    then show ?thesis by (simp add: handleInitialCameraTriggers_eq)
  next
    case (Some ev)
    show ?thesis
      using throttledTriggerAction_frame [of a ev ?m']
      by (auto simp: handleInitialCameraTriggers_eq Some split: prod.splits sum.splits)
  qed
  then have st: "states (snd ?r) = states ?m'"
    and disp: "dispatched (snd ?r) = dispatched m @
          (case List.find (\<lambda>ev. eventAccepted a (cameraID ev)) ?evs of
             None \<Rightarrow> [] | Some ev \<Rightarrow> [ev])"
    by simp_all
  have "camID \<in> getTriggeredCameraIDs (snd ?r)"
    if "(camID, entities) \<in> set (cameras a)" "entityID \<in> set entities"
      "isTriggeredState a (hass_state a entityID)" "eventAccepted a camID"
    for camID entities entityID
  proof -
    have "event camID entityID New \<in> set ?evs"
      using that unfolding mem_synthesizedEvents by blast
    moreover have "cameraID (event camID entityID New) = camID" by (simp add: event_def)
    ultimately have "camID \<in> getTriggeredCameraIDs ?m'"
      using fold_scanStep_triggered [of "event camID entityID New" ?evs a m] that(4) by simp
    then show ?thesis using getTriggeredCameraIDs_cong [OF st] by simp
  qed
  moreover have "map_of (states (snd ?r)) camID = map_of (states m) camID"
    if "\<not> eventAccepted a camID" for camID
    using that by (simp add: st fold_scanStep_other)
  ultimately show ?thesis using disp by (auto simp del: split_paired_All)
qed

lemmas example_defs =
  startupAPI_def filterSelectedCamera_def withTrigger_def withTriggers_def createTriggerAPI_def
  baseTriggersConfig_def new_TriggersManager_def event_def

text \<open>
  The test "should not execute startup action if triggered cameras are filtered out".
\<close>

theorem initial_triggers_result_witness:
  "handleInitialCameraTriggers
     (filterSelectedCamera (startupAPI\<lparr>cameras := [(''camera_2'', [''binary_sensor.motion_2''])]\<rparr>))
     new_TriggersManager = (Inr True, new_TriggersManager)"
  using initial_triggers_result
          [of "filterSelectedCamera
                 (startupAPI\<lparr>cameras := [(''camera_2'', [''binary_sensor.motion_2''])]\<rparr>)"
              new_TriggersManager]
  by (simp add: example_defs synthesizedEvents_def eventAccepted_def)

text \<open>
  Claim C5 as it is stated fails: with \<^verbatim>\<open>filter_selected_camera\<close> set and \<^verbatim>\<open>camera_1\<close>
  selected, \<^verbatim>\<open>camera_2\<close> has a trigger entity that is on and is not marked as triggered.
\<close>

theorem initial_triggers_filtered_counterexample:
  "isTriggeredState (filterSelectedCamera startupAPI)
     (hass_state (filterSelectedCamera startupAPI) ''binary_sensor.motion_2'') \<and>
   getTriggeredCameraIDs
     (snd (handleInitialCameraTriggers (filterSelectedCamera startupAPI) new_TriggersManager)) =
     {''camera_1''}"
  by (simp add: example_defs handleInitialCameraTriggers_def handleCameraEvent_def
      deleteUntriggerDelayTimer_def setConditionStateIfNecessary_def getTriggeredCameraIDs_def
      isStateTriggered_def throttledTriggerAction_def triggerAction_def navigate_def
      hasAllowableInteractionStateForAction_def Let_def)

text \<open>The test "should prioritize the first triggered camera action at startup".\<close>

theorem initial_triggers_mark_and_dispatch_once_witness:
  "''camera_1'' \<in> getTriggeredCameraIDs
      (snd (handleInitialCameraTriggers (withTrigger TriggerLive startupAPI) new_TriggersManager)) \<and>
   ''camera_2'' \<in> getTriggeredCameraIDs
      (snd (handleInitialCameraTriggers (withTrigger TriggerLive startupAPI) new_TriggersManager)) \<and>
   dispatched
      (snd (handleInitialCameraTriggers (withTrigger TriggerLive startupAPI) new_TriggersManager)) =
     [event ''camera_1'' ''binary_sensor.motion_1'' New]"
  using initial_triggers_mark_and_dispatch_once
          [of "withTrigger TriggerLive startupAPI" new_TriggersManager]
  by (simp add: example_defs synthesizedEvents_def eventAccepted_def dispatched_def)

subsection \<open>The grace period\<close>

lemma handleCameraEvent_accepted_frame:
  assumes "type' ev \<noteq> End" and "eventAccepted a (cameraID ev)"
  shows "states (snd (handleCameraEvent a ev skipAction m)) = states (acceptEvent a ev m) \<and>
         timers (snd (handleCameraEvent a ev skipAction m)) = timers (acceptEvent a ev m) \<and>
         timerCount (snd (handleCameraEvent a ev skipAction m)) = timerCount (acceptEvent a ev m)"
  using throttledTriggerAction_frame [of a ev "acceptEvent a ev m"]
  by (auto simp: handleCameraEvent_accepted [OF assms] split: prod.splits sum.splits)

lemma timers_deleteUntriggerDelayTimer:
  "timers (deleteUntriggerDelayTimer c m) =
     (case map_of (states m) c of
        None \<Rightarrow> timers m
      | Some st \<Rightarrow> (case untriggerDelayTimer st of
                     None \<Rightarrow> timers m
                   | Some t \<Rightarrow> Timer_stop t (timers m)))"
  by (simp add: deleteUntriggerDelayTimer_def split: option.splits)

lemma timerCount_deleteUntriggerDelayTimer [simp]:
  "timerCount (deleteUntriggerDelayTimer c m) = timerCount m"
  by (simp add: deleteUntriggerDelayTimer_def split: option.splits)

lemma timerCount_setConditionStateIfNecessary [simp]:
  "timerCount (setConditionStateIfNecessary m) = timerCount m"
  by (simp add: setConditionStateIfNecessary_def)

lemma timers_acceptEvent:
  "timers (acceptEvent a ev m) =
     (case map_of (states m) (cameraID ev) of
        None \<Rightarrow> timers m
      | Some st \<Rightarrow> (case untriggerDelayTimer st of
                     None \<Rightarrow> timers m
                   | Some t \<Rightarrow> Timer_stop t (timers m)))"
  by (simp add: acceptEvent_def Let_def timers_deleteUntriggerDelayTimer update_conv'
      split: option.splits)

lemma timerCount_acceptEvent [simp]: "timerCount (acceptEvent a ev m) = timerCount m"
  by (simp add: acceptEvent_def Let_def)

lemma handleCameraEvent_end_grace:
  assumes "type' ev = End"
    and "map_of (states m) (cameraID ev) = Some st"
    and "sources st \<subseteq> {id' ev}"
    and "config a = Some cfg"
    and "untrigger_seconds (triggers (view cfg)) > 0"
  shows "handleCameraEvent a ev skipAction m =
           (Inr True,
            m\<lparr>states := AList.update (cameraID ev)
                          (st\<lparr>sources := {}, untriggerDelayTimer := Some (timerCount m)\<rparr>) (states m),
              timers := Timer_start (timerCount m) (now a) (untrigger_seconds (triggers (view cfg)))
                          (cameraID ev)
                          (case untriggerDelayTimer st of
                             None \<Rightarrow> timers m
                           | Some t \<Rightarrow> Timer_stop t (timers m)),
              timerCount := Suc (timerCount m)\<rparr>)"
proof -
  have e: "sources st - {id' ev} = {}" using assms(3) by auto
  show ?thesis
    using assms(1,2,4,5)
    by (cases "untriggerDelayTimer st")
      (simp_all add: handleCameraEvent_def startUntrigger_def deleteUntriggerDelayTimer_def
        update_conv' e Let_def)
qed

lemma map_of_states_acceptEvent_same:
  "map_of (states (acceptEvent a ev m)) (cameraID ev) =
     Some (case map_of (states m) (cameraID ev) of
          None \<Rightarrow> \<lparr>lastTriggerTime = now a, sources = {id' ev}, untriggerDelayTimer = None\<rparr>
        | Some state \<Rightarrow> state\<lparr>lastTriggerTime := now a, sources := insert (id' ev) (sources state),
                             untriggerDelayTimer := None\<rparr>)"
  by (simp add: states_acceptEvent update_conv')

lemma map_of_triggered:
  "map_of (states m) c = Some st \<Longrightarrow> isStateTriggered st \<Longrightarrow> c \<in> getTriggeredCameraIDs m"
  by (auto simp: mem_getTriggeredCameraIDs dest: map_of_SomeD)

lemma timerExpiry_not_pending: "map_of (timers m) t = None \<Longrightarrow> timerExpiry a t m = (Inr (), m)"
  by (simp add: timerExpiry_def)

lemma timerExpiry_not_due:
  "map_of (timers m) t = Some (due, c) \<Longrightarrow> now a < due \<Longrightarrow> timerExpiry a t m = (Inr (), m)"
  by (simp add: timerExpiry_def)

text \<open>
  Claim C7. The grace seconds are \<open>G > 0\<close>. An accepted \<^verbatim>\<open>new\<close> (or \<^verbatim>\<open>update\<close>) event at
  time \<open>T\<close> leaves the camera with one source; the \<^verbatim>\<open>end\<close> of that source at \<open>T + 1\<close>
  returns \<^verbatim>\<open>true\<close>, makes no call and starts a timer (handle \<open>timerCount m1\<close>) due at
  \<open>T + 1 + G\<close>; another accepted \<^verbatim>\<open>new\<close> event of the camera, of any source, at
  \<open>T + 1 + d\<close> with \<open>d < G\<close> stops it. The camera is triggered after each of the three
  events; up to the time of the third event the timer is not due, so that its expiry does
  nothing, and after the third event it is pending no more, so that it never runs the
  untrigger action; the camera's entry is in the store at the end.
\<close>

theorem grace_timer_cancelled_by_new_event:
  fixes a1 a2 a3 :: api and ev1 ev2 ev3 :: CameraEvent and skip1 skip2 skip3 :: bool
    and m0 :: manager and T d G :: rat
  defines "m1 \<equiv> snd (handleCameraEvent a1 ev1 skip1 m0)"
  defines "m2 \<equiv> snd (handleCameraEvent a2 ev2 skip2 m1)"
  defines "m3 \<equiv> snd (handleCameraEvent a3 ev3 skip3 m2)"
  assumes first: "type' ev1 \<noteq> End" "eventAccepted a1 (cameraID ev1)" "now a1 = T"
    and only: "\<forall>st. map_of (states m0) (cameraID ev1) = Some st \<longrightarrow> sources st \<subseteq> {id' ev1}"
    and second: "type' ev2 = End" "cameraID ev2 = cameraID ev1" "id' ev2 = id' ev1"
      "now a2 = T + 1"
    and grace: "config a2 = Some cfg" "untrigger_seconds (triggers (view cfg)) = G" "0 < G"
    and third: "type' ev3 \<noteq> End" "cameraID ev3 = cameraID ev1" "eventAccepted a3 (cameraID ev3)"
      "now a3 = T + 1 + d" "d < G"
  shows "cameraID ev1 \<in> getTriggeredCameraIDs m1 \<and>
         cameraID ev1 \<in> getTriggeredCameraIDs m2 \<and>
         cameraID ev1 \<in> getTriggeredCameraIDs m3 \<and>
         fst (handleCameraEvent a2 ev2 skip2 m1) = Inr True \<and>
         calls m2 = calls m1 \<and>
         map_of (timers m2) (timerCount m1) = Some (T + 1 + G, cameraID ev1) \<and>
         (\<forall>a. now a \<le> now a3 \<longrightarrow> timerExpiry a (timerCount m1) m2 = (Inr (), m2)) \<and>
         map_of (timers m3) (timerCount m1) = None \<and>
         (\<forall>a. timerExpiry a (timerCount m1) m3 = (Inr (), m3)) \<and>
         map_of (states m3) (cameraID ev1) \<noteq> None"
proof -
  let ?c = "cameraID ev1"
  let ?t = "timerCount m1"
  obtain st1 where st1: "map_of (states m1) ?c = Some st1" "sources st1 = {id' ev1}"
    "untriggerDelayTimer st1 = None"
  proof -
    have "states m1 = states (acceptEvent a1 ev1 m0)"
      unfolding m1_def using handleCameraEvent_accepted_frame [OF first(1,2)] by simp
    then have "map_of (states m1) ?c =
       Some (case map_of (states m0) ?c of
          None \<Rightarrow> \<lparr>lastTriggerTime = now a1, sources = {id' ev1}, untriggerDelayTimer = None\<rparr>
        | Some state \<Rightarrow> state\<lparr>lastTriggerTime := now a1, sources := insert (id' ev1) (sources state),
                             untriggerDelayTimer := None\<rparr>)"
      by (simp add: map_of_states_acceptEvent_same)
    with only that show ?thesis by (cases "map_of (states m0) ?c") auto
  qed
  have t1: "?c \<in> getTriggeredCameraIDs m1"
    using st1 by (auto intro: map_of_triggered simp: isStateTriggered_def)
  have step2: "handleCameraEvent a2 ev2 skip2 m1 =
           (Inr True,
            m1\<lparr>states := AList.update ?c
                          (st1\<lparr>sources := {}, untriggerDelayTimer := Some ?t\<rparr>) (states m1),
               timers := Timer_start ?t (T + 1) G ?c (timers m1),
               timerCount := Suc ?t\<rparr>)"
    using handleCameraEvent_end_grace [of ev2 m1 st1 a2 cfg skip2] st1 second grace by simp
  have s2: "map_of (states m2) ?c = Some (st1\<lparr>sources := {}, untriggerDelayTimer := Some ?t\<rparr>)"
    and tm2: "map_of (timers m2) ?t = Some (T + 1 + G, ?c)"
    and c2: "calls m2 = calls m1"
    unfolding m2_def step2 by (simp_all add: update_conv' Timer_start_def)
  have t2: "?c \<in> getTriggeredCameraIDs m2"
    using s2 by (auto intro: map_of_triggered simp: isStateTriggered_def)
  have nofire: "timerExpiry a ?t m2 = (Inr (), m2)" if "now a \<le> now a3" for a
    using timerExpiry_not_due [OF tm2, of a] that third(4,5) by simp
  have fr3: "states m3 = states (acceptEvent a3 ev3 m2)" "timers m3 = timers (acceptEvent a3 ev3 m2)"
    unfolding m3_def using handleCameraEvent_accepted_frame [OF third(1,3)] by simp_all
  have tm3: "map_of (timers m3) ?t = None"
    using s2 by (simp add: fr3 timers_acceptEvent third(2) Timer_stop_def delete_conv')
  have s3: "map_of (states m3) ?c =
       Some (st1\<lparr>lastTriggerTime := now a3, sources := {id' ev3}, untriggerDelayTimer := None\<rparr>)"
    using map_of_states_acceptEvent_same [of a3 ev3 m2] s2 by (simp add: fr3 third(2))
  have t3: "?c \<in> getTriggeredCameraIDs m3"
    using s3 by (auto intro: map_of_triggered simp: isStateTriggered_def)
  show ?thesis
    using t1 t2 t3 step2 c2 tm2 nofire tm3 timerExpiry_not_pending [OF tm3] s3 by simp
qed

lemmas method_defs =
  handleCameraEvent_def startUntrigger_def untriggerAction_def executeUntriggerAction_def
  deleteUntriggerDelayTimer_def setConditionStateIfNecessary_def getTriggeredCameraIDs_def
  isStateTriggered_def throttledTriggerAction_def triggerAction_def navigate_def
  hasAllowableInteractionStateForAction_def timerExpiry_def Timer_start_def Timer_stop_def Let_def

lemma afterNew_eq:
  "afterNew =
     \<lparr>states = [(''camera_1'',
                  \<lparr>lastTriggerTime = 0, sources = {''entity_1''}, untriggerDelayTimer = None\<rparr>)],
      timers = [], timerCount = 0, pendingTriggerAction = None,
      calls = [ConditionState_setState (Some {''camera_1''}),
               ThrottledTriggerAction (event ''camera_1'' ''entity_1'' New),
               ViewManager SetViewByParametersWithNewQuery_noCache,
               CardElement_update]\<rparr>"
  by (simp add: afterNew_def example_defs method_defs)

lemma afterEnd_eq:
  "afterEnd =
     \<lparr>states = [(''camera_1'',
                  \<lparr>lastTriggerTime = 0, sources = {}, untriggerDelayTimer = Some 0\<rparr>)],
      timers = [(0, 11, ''camera_1'')], timerCount = 1, pendingTriggerAction = None,
      calls = [ConditionState_setState (Some {''camera_1''}),
               ThrottledTriggerAction (event ''camera_1'' ''entity_1'' New),
               ViewManager SetViewByParametersWithNewQuery_noCache,
               CardElement_update]\<rparr>"
  by (simp add: afterEnd_def afterNew_eq example_defs method_defs)

text \<open>
  The test "should cancel untrigger timer if a new trigger starts", the second \<^verbatim>\<open>new\<close>
  event at second 5.
\<close>

theorem grace_timer_cancelled_by_new_event_witness:
  "''camera_1'' \<in> getTriggeredCameraIDs afterNew \<and>
   ''camera_1'' \<in> getTriggeredCameraIDs afterEnd \<and>
   map_of (timers afterEnd) 0 = Some (11, ''camera_1'') \<and>
   timerExpiry (createTriggerAPI\<lparr>now := 5\<rparr>) 0 afterEnd = (Inr (), afterEnd) \<and>
   getTriggeredCameraIDs
     (snd (handleCameraEvent (createTriggerAPI\<lparr>now := 5\<rparr>) (event ''camera_1'' ''entity_1'' New)
             False afterEnd)) = {''camera_1''} \<and>
   timers (snd (handleCameraEvent (createTriggerAPI\<lparr>now := 5\<rparr>)
                  (event ''camera_1'' ''entity_1'' New) False afterEnd)) = []"
proof -
  note inst = grace_timer_cancelled_by_new_event
      [where ?a1.0 = createTriggerAPI and ?ev1.0 = "event ''camera_1'' ''entity_1'' New"
         and ?m0.0 = new_TriggersManager and ?T = 0
         and ?a2.0 = "createTriggerAPI\<lparr>now := 1\<rparr>"
         and ?ev2.0 = "event ''camera_1'' ''entity_1'' End"
         and ?cfg = "\<lparr>view = \<lparr>triggers = baseTriggersConfig, view_default = ''live''\<rparr>\<rparr>"
         and ?G = 10
         and ?a3.0 = "createTriggerAPI\<lparr>now := 5\<rparr>"
         and ?ev3.0 = "event ''camera_1'' ''entity_1'' New" and ?d = 4
         and ?skip1.0 = False and ?skip2.0 = False and ?skip3.0 = False]
  have "type' (event ''camera_1'' ''entity_1'' New) \<noteq> End"
    and "eventAccepted createTriggerAPI (cameraID (event ''camera_1'' ''entity_1'' New))"
    and "eventAccepted (createTriggerAPI\<lparr>now := 5\<rparr>)
           (cameraID (event ''camera_1'' ''entity_1'' New))"
    and "\<forall>st. map_of (states new_TriggersManager) (cameraID (event ''camera_1'' ''entity_1'' New))
            = Some st \<longrightarrow> sources st \<subseteq> {id' (event ''camera_1'' ''entity_1'' New)}"
    and "config (createTriggerAPI\<lparr>now := 1\<rparr>) =
           Some \<lparr>view = \<lparr>triggers = baseTriggersConfig, view_default = ''live''\<rparr>\<rparr>"
    and "untrigger_seconds
           (triggers (view \<lparr>view = \<lparr>triggers = baseTriggersConfig, view_default = ''live''\<rparr>\<rparr>))
         = 10"
    by (simp_all add: eventAccepted_def example_defs)
  from inst [OF this(1,2) _ this(4) _ _ _ _ this(5,6) _ _ _ this(3)]
  show ?thesis
    by (simp add: afterEnd_eq afterNew_eq example_defs method_defs)
qed

subsection \<open>A second delivery of an end event\<close>

text \<open>
  Claim C8 as it is stated fails. After the \<^verbatim>\<open>end\<close> of the only source at second 1, with ten
  grace seconds, timer 0 is pending and due at second 11. A second delivery of the same
  \<^verbatim>\<open>end\<close> at second 5, when the source is in the set no more, stops timer 0 and starts
  timer 1, due at second 15.
\<close>

theorem second_end_restarts_timer_counterexample:
  "type' (event ''camera_1'' ''entity_1'' End) = End \<and>
   states afterEnd =
     [(''camera_1'', \<lparr>lastTriggerTime = 0, sources = {}, untriggerDelayTimer = Some 0\<rparr>)] \<and>
   timers afterEnd = [(0, 11, ''camera_1'')] \<and>
   states (snd (handleCameraEvent (createTriggerAPI\<lparr>now := 5\<rparr>)
                  (event ''camera_1'' ''entity_1'' End) False afterEnd)) =
     [(''camera_1'', \<lparr>lastTriggerTime = 0, sources = {}, untriggerDelayTimer = Some 1\<rparr>)] \<and>
   timers (snd (handleCameraEvent (createTriggerAPI\<lparr>now := 5\<rparr>)
                  (event ''camera_1'' ''entity_1'' End) False afterEnd)) =
     [(1, 15, ''camera_1'')]"
  by (simp add: afterEnd_eq example_defs method_defs)

lemma handleCameraEvent_end_remaining:
  assumes "type' ev = End"
    and "map_of (states m) (cameraID ev) = Some st"
    and "id' ev \<notin> sources st"
    and "sources st \<noteq> {}"
  shows "handleCameraEvent a ev skipAction m = (Inr True, m)"
proof -
  have "sources st - {id' ev} = sources st" using assms(3) by auto
  then have "AList.update (cameraID ev) (st\<lparr>sources := sources st - {id' ev}\<rparr>) (states m)
             = states m"
    using assms(2) by (simp add: update_triv)
  then show ?thesis
    using assms by (simp add: handleCameraEvent_def)
qed

text \<open>
  Claim C8, amended. A second delivery of an \<^verbatim>\<open>end\<close> event whose source is in the camera's
  set no more returns \<^verbatim>\<open>true\<close> and leaves the manager as it was when the camera has no
  entry or has other active sources. When the camera is in its grace period (no source,
  timer \<open>t\<close> pending) and the grace seconds are positive, the delivery makes no call and
  leaves the sources as they were, but it stops \<open>t\<close> and starts a new timer, due the
  grace seconds after this delivery: one timer is pending for the camera in place of the
  other.
\<close>

theorem second_end_delivery:
  assumes "type' ev = End"
    and "\<forall>st. map_of (states m) (cameraID ev) = Some st \<longrightarrow> id' ev \<notin> sources st"
  shows "(map_of (states m) (cameraID ev) = None \<longrightarrow>
            handleCameraEvent a ev skipAction m = (Inr True, m)) \<and>
         (\<forall>st. map_of (states m) (cameraID ev) = Some st \<and> sources st \<noteq> {} \<longrightarrow>
            handleCameraEvent a ev skipAction m = (Inr True, m)) \<and>
         (\<forall>st t cfg.
            map_of (states m) (cameraID ev) = Some st \<and> sources st = {} \<and>
            untriggerDelayTimer st = Some t \<and>
            config a = Some cfg \<and> 0 < untrigger_seconds (triggers (view cfg)) \<longrightarrow>
            handleCameraEvent a ev skipAction m =
              (Inr True,
               m\<lparr>states := AList.update (cameraID ev)
                             (st\<lparr>untriggerDelayTimer := Some (timerCount m)\<rparr>) (states m),
                 timers := Timer_start (timerCount m) (now a)
                             (untrigger_seconds (triggers (view cfg))) (cameraID ev)
                             (Timer_stop t (timers m)),
                 timerCount := Suc (timerCount m)\<rparr>))"
proof (intro conjI allI impI)
  assume "map_of (states m) (cameraID ev) = None"
  then show "handleCameraEvent a ev skipAction m = (Inr True, m)"
    using assms(1) by (rule handleCameraEvent_End_no_state [rotated])
next
  fix st
  assume "map_of (states m) (cameraID ev) = Some st \<and> sources st \<noteq> {}"
  then show "handleCameraEvent a ev skipAction m = (Inr True, m)"
    using assms handleCameraEvent_end_remaining [of ev m st a skipAction] by simp
next
  fix st t cfg
  assume h: "map_of (states m) (cameraID ev) = Some st \<and> sources st = {} \<and>
            untriggerDelayTimer st = Some t \<and>
            config a = Some cfg \<and> 0 < untrigger_seconds (triggers (view cfg))"
  then have eq: "st\<lparr>sources := {}, untriggerDelayTimer := Some (timerCount m)\<rparr> =
             st\<lparr>untriggerDelayTimer := Some (timerCount m)\<rparr>"
    by simp
  show "handleCameraEvent a ev skipAction m =
              (Inr True,
               m\<lparr>states := AList.update (cameraID ev)
                             (st\<lparr>untriggerDelayTimer := Some (timerCount m)\<rparr>) (states m),
                 timers := Timer_start (timerCount m) (now a)
                             (untrigger_seconds (triggers (view cfg))) (cameraID ev)
                             (Timer_stop t (timers m)),
                 timerCount := Suc (timerCount m)\<rparr>)"
    using handleCameraEvent_end_grace [of ev m st a cfg skipAction, unfolded eq] assms(1) h
    by simp
qed

text \<open>The counterexample's run, and a second \<^verbatim>\<open>end\<close> while another source is active.\<close>

theorem second_end_delivery_witness:
  "handleCameraEvent (createTriggerAPI\<lparr>now := 5\<rparr>) (event ''camera_1'' ''entity_1'' End) False
     afterEnd =
     (Inr True,
      afterEnd\<lparr>states := [(''camera_1'',
                            \<lparr>lastTriggerTime = 0, sources = {}, untriggerDelayTimer = Some 1\<rparr>)],
               timers := [(1, 15, ''camera_1'')], timerCount := 2\<rparr>) \<and>
   handleCameraEvent (createTriggerAPI\<lparr>now := 5\<rparr>) (event ''camera_1'' ''entity_2'' End) False
     afterNew = (Inr True, afterNew)"
proof -
  have "type' (event ''camera_1'' ''entity_1'' End) = End"
    and "type' (event ''camera_1'' ''entity_2'' End) = End"
    and "\<forall>st. map_of (states afterEnd) (cameraID (event ''camera_1'' ''entity_1'' End)) = Some st
           \<longrightarrow> id' (event ''camera_1'' ''entity_1'' End) \<notin> sources st"
    and "\<forall>st. map_of (states afterNew) (cameraID (event ''camera_1'' ''entity_2'' End)) = Some st
           \<longrightarrow> id' (event ''camera_1'' ''entity_2'' End) \<notin> sources st"
    by (simp_all add: event_def afterEnd_eq afterNew_eq)
  from second_end_delivery
         [OF this(1,3), of "createTriggerAPI\<lparr>now := 5\<rparr>" False]
       second_end_delivery
         [OF this(2,4), of "createTriggerAPI\<lparr>now := 5\<rparr>" False]
  show ?thesis
    by (simp add: afterEnd_eq afterNew_eq example_defs Timer_start_def Timer_stop_def)
qed

subsection \<open>The invariant of the store\<close>





























subsection \<open>A rejected navigation\<close>






lemma never_rejecting [simp]:
  "eventAccepted (a\<lparr>navigationRejected := r\<rparr>) c = eventAccepted a c"
  "acceptEvent (a\<lparr>navigationRejected := r\<rparr>) ev m = acceptEvent a ev m"
  "untriggerSeconds (a\<lparr>navigationRejected := r\<rparr>) = untriggerSeconds a"
  by (simp_all add: eventAccepted_def acceptEvent_def untriggerSeconds_def Let_def
      split: option.splits)






end
